theory Spec2Isabelle
  imports Complex_Main "HOL-Library.AList"
begin

section \<open>JavaScript strings and the regular expressions the tracker uses\<close>

text \<open>
  A JavaScript string is a sequence of UTF-16 code units. The model takes the code units
  below 256, so a string is a \<^typ>\<open>string\<close> and a literal of the source is a literal here.
  Of the line terminators of the language (LF, CR, U+2028, U+2029) and of its white space
  only the members below 256 exist in the model.
\<close>

definition isLineTerminator :: "char \<Rightarrow> bool" where
  "isLineTerminator c = (c = CHR 0x0A \<or> c = CHR 0x0D)"

definition isWhiteSpace :: "char \<Rightarrow> bool" where
  \<comment> \<open>the class \<open>\s\<close>: tab, LF, VT, FF, CR, space, no-break space\<close>
  "isWhiteSpace c = (c = CHR 0x09 \<or> c = CHR 0x0A \<or> c = CHR 0x0B \<or> c = CHR 0x0C \<or>
     c = CHR 0x0D \<or> c = CHR 0x20 \<or> c = CHR 0xA0)"

definition isWordChar :: "char \<Rightarrow> bool" where
  \<comment> \<open>the class \<open>\w\<close>: \<open>[A-Za-z0-9_]\<close>\<close>
  "isWordChar c = (let n = (of_char c :: nat) in
     (65 \<le> n \<and> n \<le> 90) \<or> (97 \<le> n \<and> n \<le> 122) \<or> (48 \<le> n \<and> n \<le> 57) \<or> n = 95)"

datatype cclass = Space | Word | OneOf string

fun in_class :: "cclass \<Rightarrow> char \<Rightarrow> bool" where
  "in_class Space c = isWhiteSpace c"
| "in_class Word c = isWordChar c"
| "in_class (OneOf s) c = (c \<in> set s)"

text \<open>
  The fragment of the regular expression language that the source uses: literals, one
  character of a class, the greedy \<open>*\<close> and \<open>+\<close> of a class, the greedy optional group,
  sequence, \<open>^\<close> and \<open>$\<close> under the \<open>m\<close> flag, and \<open>$\<close> without it.
\<close>

datatype regex =
    Lit string
  | One cclass
  | Star cclass
  | Plus cclass
  | Opt regex
  | Seq regex regex
  | BolM
  | EolM
  | Eoi

text \<open>
  A position is the code unit before it (none at index 0) and the rest of the input.
\<close>

type_synonym pos = "char option \<times> string"

fun advance :: "nat \<Rightarrow> pos \<Rightarrow> pos" where
  "advance 0 p = p"
| "advance (Suc n) (prev, []) = (prev, [])"
| "advance (Suc n) (prev, c # cs) = advance n (Some c, cs)"

text \<open>
  \<open>rmatch r p\<close> lists the positions at which a match of \<open>r\<close> begun at \<open>p\<close> can end, in
  the order in which a backtracking matcher tries them: the head is the match it reports.
\<close>

fun rmatch :: "regex \<Rightarrow> pos \<Rightarrow> pos list" where
  "rmatch (Lit s) (prev, rest) =
     (if take (length s) rest = s then [advance (length s) (prev, rest)] else [])"
| "rmatch (One k) (prev, rest) =
     (case rest of [] \<Rightarrow> [] | c # cs \<Rightarrow> if in_class k c then [(Some c, cs)] else [])"
| "rmatch (Star k) (prev, rest) =
     map (\<lambda>n. advance n (prev, rest)) (rev [0..<Suc (length (takeWhile (in_class k) rest))])"
| "rmatch (Plus k) (prev, rest) =
     map (\<lambda>n. advance n (prev, rest)) (rev [1..<Suc (length (takeWhile (in_class k) rest))])"
| "rmatch (Opt r) p = rmatch r p @ [p]"
| "rmatch (Seq r1 r2) p = concat (map (rmatch r2) (rmatch r1 p))"
| "rmatch BolM (prev, rest) =
     (case prev of None \<Rightarrow> [(prev, rest)]
      | Some c \<Rightarrow> if isLineTerminator c then [(prev, rest)] else [])"
| "rmatch EolM (prev, rest) =
     (case rest of [] \<Rightarrow> [(prev, rest)]
      | c # cs \<Rightarrow> if isLineTerminator c then [(prev, rest)] else [])"
| "rmatch Eoi (prev, rest) = (case rest of [] \<Rightarrow> [(prev, rest)] | c # cs \<Rightarrow> [])"

text \<open>\<open>re.test(text)\<close>: is there a match beginning at some index.\<close>

fun test_from :: "regex \<Rightarrow> char option \<Rightarrow> string \<Rightarrow> bool" where
  "test_from r prev [] = (rmatch r (prev, []) \<noteq> [])"
| "test_from r prev (c # cs) = (rmatch r (prev, c # cs) \<noteq> [] \<or> test_from r (Some c) cs)"

definition regex_test :: "regex \<Rightarrow> string \<Rightarrow> bool" where
  "regex_test r text = test_from r None text"

text \<open>
  \<open>(text.match(re) || []).length\<close> for a regular expression with the \<open>g\<close> flag: the
  matches are found from left to right, each search beginning where the match before it
  ended (one code unit further after an empty match).
\<close>

function count_from :: "regex \<Rightarrow> char option \<Rightarrow> string \<Rightarrow> nat" where
  "count_from r prev rest =
     (case rmatch r (prev, rest) of
        [] \<Rightarrow> (case rest of [] \<Rightarrow> 0 | c # cs \<Rightarrow> count_from r (Some c) cs)
      | e # _ \<Rightarrow>
          Suc (if length (snd e) < length rest then count_from r (fst e) (snd e)
               else (case rest of [] \<Rightarrow> 0 | c # cs \<Rightarrow> count_from r (Some c) cs)))"
  by pat_completeness auto
termination
  by (relation "measure (\<lambda>(r, prev, rest). length rest)") auto

declare count_from.simps [simp del]

definition match_count :: "regex \<Rightarrow> string \<Rightarrow> nat" where
  "match_count r text = count_from r None text"

text \<open>\<open>text.split('\n')\<close>, and the same for any separator code unit.\<close>

fun split_on :: "(char \<Rightarrow> bool) \<Rightarrow> string \<Rightarrow> string list" where
  "split_on sep [] = [[]]"
| "split_on sep (c # cs) =
     (if sep c then [] # split_on sep cs
      else (case split_on sep cs of [] \<Rightarrow> [[c]] | l # ls \<Rightarrow> (c # l) # ls))"

definition split_nl :: "string \<Rightarrow> string list" where
  "split_nl text = split_on (\<lambda>c. c = CHR 0x0A) text"

section \<open>The change classifier\<close>

datatype source = manual | agent | auto

fun seqs :: "regex list \<Rightarrow> regex" where
  "seqs [] = Lit []"
| "seqs [r] = r"
| "seqs (r # rs) = Seq r (seqs rs)"

text \<open>
  The patterns of \<open>detectAgentChange\<close>, in the order of the source:
  \<^verbatim>\<open>/^(export\s+)?(async\s+)?function\s+/m\<close>,
  \<^verbatim>\<open>/^(export\s+)?class\s+/m\<close>,
  \<^verbatim>\<open>/^(export\s+)?interface\s+/m\<close>,
  \<^verbatim>\<open>/^(export\s+)?const\s+\w+\s*[=:]/m\<close>,
  \<^verbatim>\<open>/^import\s+/m\<close>,
  \<^verbatim>\<open>/^\/\*\*/m\<close> and
  \<^verbatim>\<open>/^\s*\/\//m\<close>.
\<close>

definition codePatterns :: "regex list" where
  "codePatterns =
    [ seqs [BolM, Opt (seqs [Lit ''export'', Plus Space]), Opt (seqs [Lit ''async'', Plus Space]),
            Lit ''function'', Plus Space],
      seqs [BolM, Opt (seqs [Lit ''export'', Plus Space]), Lit ''class'', Plus Space],
      seqs [BolM, Opt (seqs [Lit ''export'', Plus Space]), Lit ''interface'', Plus Space],
      seqs [BolM, Opt (seqs [Lit ''export'', Plus Space]), Lit ''const'', Plus Space, Plus Word,
            Star Space, One (OneOf ''=:'')],
      seqs [BolM, Lit ''import'', Plus Space],
      seqs [BolM, Lit ''/**''],
      seqs [BolM, Star Space, Lit ''//''] ]"

definition statementRe :: regex where
  \<comment> \<open>\<open>/[;{}]\s*$/gm\<close>\<close>
  "statementRe = seqs [One (OneOf '';{}''), Star Space, EolM]"

definition detectAgentChange :: "string \<Rightarrow> bool" where
  "detectAgentChange text =
     (let lines = split_nl text in
      if length lines < 3 then False
      else
        let hasCodePattern = list_ex (\<lambda>p. regex_test p text) codePatterns;
            openBraces = match_count (Lit ''{'') text;
            closeBraces = match_count (Lit ''}'') text;
            isBalanced = (openBraces = closeBraces);
            statements = match_count statementRe text;
            hasMultipleStatements = (2 \<le> statements)
        in hasCodePattern \<and> isBalanced \<and> (hasMultipleStatements \<or> 5 \<le> length lines))"

definition classify :: "string \<Rightarrow> source" where
  \<comment> \<open>the \<open>source\<close> that \<open>processChange\<close> gives a change\<close>
  "classify text = (if detectAgentChange text then agent else manual)"


text \<open>
  The decision procedure as the specification words it, for comparison with
  \<open>detectAgentChange\<close>: lines are the pieces between line feeds, a line ends in a
  statement character when its last code unit that is not white space is one of \<open>;\<close>,
  \<open>{\<close>, \<open>}\<close>, and the braces are counted as code units.
\<close>

definition hasCodePattern :: "string \<Rightarrow> bool" where
  "hasCodePattern s = list_ex (\<lambda>p. regex_test p s) codePatterns"







section \<open>The change tracker\<close>

subsection \<open>Data\<close>

datatype status = pending | explaining | explained | error

datatype changeType = added | modified | deleted

datatype DetailLevel = tldr | general | detailed | extreme_detail

record lineRange =
  startLine :: int
  endLine :: int

text \<open>
  \<open>CodeChange\<close>. The time stamp is the clock in milliseconds (the source keeps its ISO
  rendering).
\<close>

record CodeChange =
  c_id :: string
  c_timestamp :: nat
  c_filePath :: string
  c_changeType :: changeType
  c_range :: lineRange
  c_code :: string
  c_explanation :: "string option"
  c_status :: status
  c_source :: "source option"

text \<open>
  \<open>JournalEntry\<close>. Its \<open>changes\<close> array holds the same objects as the tracker's map, so
  it is a list of references into the store of change objects.
\<close>

record JournalEntry =
  j_id :: string
  j_sessionStart :: nat
  j_sessionEnd :: "nat option"
  j_title :: "string option"
  j_changes :: "nat list"
  j_summary :: "string option"

text \<open>
  What the tracker reads of a \<open>vscode.TextDocument\<close> (the scheme and the path of its URI,
  and what \<open>getRelativePath\<close> makes of the URI) and of a content change (the line its
  range starts at, and its text).
\<close>

record TextDocument =
  d_scheme :: string
  d_fsPath :: string
  d_relativePath :: string

record ContentChange =
  ch_line :: nat
  ch_text :: string

text \<open>The argument of \<open>llmService.generateExplanation\<close> (without the language tag).\<close>

record LLMRequest =
  rq_code :: string
  rq_filePath :: string
  rq_startLine :: int
  rq_endLine :: int
  rq_detailLevel :: DetailLevel
  rq_additionalContext :: "string option"

text \<open>
  A pending \<open>setTimeout\<close>: when it is due, and what its callback closes over.
\<close>

record timer =
  tm_due :: nat
  tm_document :: TextDocument
  tm_change :: ContentChange
  tm_key :: string

datatype feed = EditFeed | SaveFeed

datatype emitted = ChangeNotified nat status | JournalNotified | LLMRequested LLMRequest

text \<open>
  The fields of \<open>ChangeTrackerService\<close>, and with them the part of the runtime that its
  methods act on: the store of change objects (a reference is an index), the clock, the
  table of timers (a handle is an index, a cleared or fired timer leaves \<open>None\<close>), the
  event subscriptions handed out by the editor (a disposable is an index, with the feed
  and whether it is still live), the extension context's list of disposables, the calls
  of \<open>explainChange\<close> that are suspended at their \<open>await\<close> (each by the change it holds),
  and the log of what the tracker sent out: listener notifications and generator calls.
\<close>

record tracker =
  changes :: "(string \<times> nat) list"
  currentJournal :: "JournalEntry option"
  fileWatchers :: "nat list"
  documentChangeListener :: "nat option"
  pendingChanges :: "(string \<times> nat) list"
  isTracking :: bool
  heap :: "CodeChange list"
  clock :: nat
  timers :: "timer option list"
  subscriptions :: "(feed \<times> bool) list"
  contextSubscriptions :: "nat list"
  inflight :: "nat list"
  outputs :: "emitted list"

definition DEBOUNCE_MS :: nat where
  "DEBOUNCE_MS = 2000"

definition initial :: "nat \<Rightarrow> tracker" where
  "initial t0 =
     \<lparr> changes = [], currentJournal = None, fileWatchers = [], documentChangeListener = None,
       pendingChanges = [], isTracking = False, heap = [], clock = t0, timers = [],
       subscriptions = [], contextSubscriptions = [], inflight = [], outputs = [] \<rparr>"

subsection \<open>The runtime: references, timers, subscriptions\<close>

definition deref :: "tracker \<Rightarrow> nat \<Rightarrow> CodeChange option" where
  "deref s a = (if a < length (heap s) then Some (heap s ! a) else None)"

definition set_status :: "nat \<Rightarrow> status \<Rightarrow> tracker \<Rightarrow> tracker" where
  "set_status a st s = s\<lparr>heap := (heap s)[a := (heap s ! a)\<lparr>c_status := st\<rparr>]\<rparr>"

definition set_explanation :: "nat \<Rightarrow> string \<Rightarrow> tracker \<Rightarrow> tracker" where
  "set_explanation a e s = s\<lparr>heap := (heap s)[a := (heap s ! a)\<lparr>c_explanation := Some e\<rparr>]\<rparr>"

definition setTimeout :: "timer \<Rightarrow> tracker \<Rightarrow> nat \<times> tracker" where
  "setTimeout t s = (length (timers s), s\<lparr>timers := timers s @ [Some t]\<rparr>)"

definition clearTimeout :: "nat \<Rightarrow> tracker \<Rightarrow> tracker" where
  "clearTimeout h s = s\<lparr>timers := (timers s)[h := None]\<rparr>"

definition subscribe :: "feed \<Rightarrow> tracker \<Rightarrow> nat \<times> tracker" where
  "subscribe f s = (length (subscriptions s), s\<lparr>subscriptions := subscriptions s @ [(f, True)]\<rparr>)"

definition dispose :: "nat \<Rightarrow> tracker \<Rightarrow> tracker" where
  "dispose d s = s\<lparr>subscriptions := (subscriptions s)[d := (fst (subscriptions s ! d), False)]\<rparr>"

definition live :: "feed \<Rightarrow> tracker \<Rightarrow> nat list" where
  "live f s = filter (\<lambda>d. subscriptions s ! d = (f, True)) [0..<length (subscriptions s)]"

definition notifyChangeListeners :: "nat \<Rightarrow> tracker \<Rightarrow> tracker" where
  "notifyChangeListeners a s =
     s\<lparr>outputs := outputs s @ [ChangeNotified a (c_status (heap s ! a))]\<rparr>"

definition notifyJournalListeners :: "tracker \<Rightarrow> tracker" where
  "notifyJournalListeners s =
     (case currentJournal s of None \<Rightarrow> s | Some j \<Rightarrow> s\<lparr>outputs := outputs s @ [JournalNotified]\<rparr>)"

subsection \<open>Starting and stopping\<close>

text \<open>
  \<open>generateId\<close> draws on the clock and on \<open>Math.random\<close>; the identifier it returns is
  an argument of the operations that call it.
\<close>

definition startTracking :: "string \<Rightarrow> tracker \<Rightarrow> tracker" where
  "startTracking newId s =
     (if isTracking s then s
      else
        let s1 = s\<lparr>isTracking := True,
                   currentJournal := Some \<lparr>j_id = newId, j_sessionStart = clock s,
                     j_sessionEnd = None, j_title = None, j_changes = [], j_summary = None\<rparr>\<rparr>;
            (d, s2) = subscribe EditFeed s1;
            s3 = s2\<lparr>documentChangeListener := Some d\<rparr>;
            (saveWatcher, s4) = subscribe SaveFeed s3
        in s4\<lparr>contextSubscriptions := contextSubscriptions s4 @ [saveWatcher]\<rparr>)"

definition stopTracking :: "tracker \<Rightarrow> JournalEntry option \<times> tracker" where
  "stopTracking s =
     (if \<not> isTracking s then (None, s)
      else
        let s1 = s\<lparr>isTracking := False\<rparr>;
            s2 = (case documentChangeListener s1 of None \<Rightarrow> s1 | Some d \<Rightarrow> dispose d s1);
            s3 = (fold dispose (fileWatchers s2) s2)\<lparr>fileWatchers := []\<rparr>;
            s4 = (fold clearTimeout (map snd (pendingChanges s3)) s3)\<lparr>pendingChanges := []\<rparr>
        in case currentJournal s4 of
             Some j \<Rightarrow> (Some (j\<lparr>j_sessionEnd := Some (clock s4)\<rparr>), s4\<lparr>currentJournal := None\<rparr>)
           | None \<Rightarrow> (None, s4))"

definition clear :: "tracker \<Rightarrow> tracker" where
  "clear s =
     (let s1 = s\<lparr>changes := []\<rparr>
      in case currentJournal s1 of
           Some j \<Rightarrow> s1\<lparr>currentJournal := Some (j\<lparr>j_changes := []\<rparr>)\<rparr>
         | None \<Rightarrow> s1)"

subsection \<open>Edits, the debounce timers and \<open>processChange\<close>\<close>

definition ignorePatterns :: "regex list" where
  "ignorePatterns =
     [Lit ''node_modules'', Lit ''.git'', Lit ''dist/'', Lit ''build/'', Lit ''.voya/'',
      Lit ''.next/'', Lit ''package-lock.json'', Lit ''yarn.lock'', Lit ''.min.'',
      seqs [Lit ''.map'', Eoi]]"

definition shouldIgnoreFile :: "string \<Rightarrow> bool" where
  "shouldIgnoreFile filePath = list_ex (\<lambda>p. regex_test p filePath) ignorePatterns"

definition digit :: "nat \<Rightarrow> char" where
  "digit n = char_of (48 + n)"

function show_nat :: "nat \<Rightarrow> string" where
  "show_nat n = (if n < 10 then [digit n] else show_nat (n div 10) @ [digit (n mod 10)])"
  by pat_completeness auto
termination
  by (relation "measure id") auto

declare show_nat.simps [simp del]

definition changeKey :: "TextDocument \<Rightarrow> ContentChange \<Rightarrow> string" where
  "changeKey document change = d_fsPath document @ '':'' @ show_nat (ch_line change)"

text \<open>
  The two filters of the loop body: an insertion of white space only, and a single line
  of fewer than ten code units.
\<close>

definition skipped :: "ContentChange \<Rightarrow> bool" where
  "skipped change =
     (list_all isWhiteSpace (ch_text change) \<or>
      (length (split_nl (ch_text change)) = 1 \<and> length (ch_text change) < 10))"

definition debounce :: "TextDocument \<Rightarrow> ContentChange \<Rightarrow> tracker \<Rightarrow> tracker" where
  "debounce document change s =
     (let key = changeKey document change;
          s1 = (case map_of (pendingChanges s) key of
                  Some h \<Rightarrow> clearTimeout h s | None \<Rightarrow> s);
          (h, s2) = setTimeout \<lparr>tm_due = clock s1 + DEBOUNCE_MS, tm_document = document,
                       tm_change = change, tm_key = key\<rparr> s1
      in s2\<lparr>pendingChanges := AList.update key h (pendingChanges s2)\<rparr>)"

fun contentChanges_loop :: "TextDocument \<Rightarrow> ContentChange list \<Rightarrow> tracker \<Rightarrow> tracker" where
  "contentChanges_loop document [] s = s"
| "contentChanges_loop document (change # rest) s =
     contentChanges_loop document rest
       (if skipped change then s else debounce document change s)"

definition handleDocumentChange :: "TextDocument \<Rightarrow> ContentChange list \<Rightarrow> tracker \<Rightarrow> tracker" where
  "handleDocumentChange document contentChanges s =
     (if d_scheme document \<noteq> ''file'' then s
      else if contentChanges = [] then s
      else if shouldIgnoreFile (d_fsPath document) then s
      else contentChanges_loop document contentChanges s)"

definition processChange :: "TextDocument \<Rightarrow> ContentChange \<Rightarrow> string \<Rightarrow> tracker \<Rightarrow> tracker" where
  "processChange document change newId s =
     (let filePath = d_relativePath document;
          startLine' = int (ch_line change) + 1;
          endLine' = startLine' + int (length (split_nl (ch_text change))) - 1;
          codeChange = \<lparr>c_id = newId, c_timestamp = clock s, c_filePath = filePath,
            c_changeType = added, c_range = \<lparr>startLine = startLine', endLine = endLine'\<rparr>,
            c_code = ch_text change, c_explanation = None, c_status = pending,
            c_source = Some (classify (ch_text change))\<rparr>;
          a = length (heap s);
          s1 = s\<lparr>heap := heap s @ [codeChange], changes := AList.update newId a (changes s)\<rparr>;
          s2 = (case currentJournal s1 of
                  Some j \<Rightarrow> s1\<lparr>currentJournal := Some (j\<lparr>j_changes := j_changes j @ [a]\<rparr>)\<rparr>
                | None \<Rightarrow> s1)
      in notifyJournalListeners (notifyChangeListeners a s2))"

text \<open>
  A timer fires no earlier than it is due. Its callback runs \<open>processChange\<close> on the
  edit it closes over and deletes its key from \<open>pendingChanges\<close>.
\<close>

definition timerFire :: "nat \<Rightarrow> string \<Rightarrow> tracker \<Rightarrow> tracker" where
  "timerFire h newId s =
     (if h < length (timers s) then
        (case timers s ! h of
           None \<Rightarrow> s
         | Some t \<Rightarrow>
             if clock s < tm_due t then s
             else
               let s1 = s\<lparr>timers := (timers s)[h := None]\<rparr>;
                   s2 = processChange (tm_document t) (tm_change t) newId s1
               in s2\<lparr>pendingChanges := AList.delete (tm_key t) (pendingChanges s2)\<rparr>)
      else s)"

definition advance_clock :: "nat \<Rightarrow> tracker \<Rightarrow> tracker" where
  "advance_clock d s = s\<lparr>clock := clock s + d\<rparr>"

subsection \<open>\<open>explainChange\<close>\<close>

text \<open>
  A thrown error is \<open>Inl\<close> of its message, a value is \<open>Inr\<close>. The generator is a function
  from the request to the error it throws or the explanation of its response.

  \<open>explainChange\<close> has one \<open>await\<close>, on the generator. \<open>explainChange_begin\<close> is the
  method up to the notification before the \<open>try\<close>; it returns the change object that the
  call goes on with, or \<open>None\<close> when the guard returned. \<open>explainChange_settle\<close> is the
  method from the outcome of the \<open>try\<close> block on.
\<close>

definition explainChange_begin :: "string \<Rightarrow> tracker \<Rightarrow> nat option \<times> tracker" where
  "explainChange_begin changeId s =
     (case map_of (changes s) changeId of
        None \<Rightarrow> (None, s)
      | Some a \<Rightarrow>
          (case deref s a of
             None \<Rightarrow> (None, s)
           | Some change \<Rightarrow>
               if c_status change = explaining \<or> c_status change = explained then (None, s)
               else (Some a, notifyChangeListeners a (set_status a explaining s))))"

definition explainRequest :: "CodeChange \<Rightarrow> LLMRequest" where
  "explainRequest change =
     \<lparr>rq_code = c_code change, rq_filePath = c_filePath change,
      rq_startLine = startLine (c_range change), rq_endLine = endLine (c_range change),
      rq_detailLevel = general,
      rq_additionalContext = Some (''This code was just '' @
        (if c_source change = Some agent then ''generated by an AI assistant'' else ''written'') @
        ''. Explain what it does and why it might have been added.'')\<rparr>"

definition explainChange_settle :: "nat \<Rightarrow> string + string \<Rightarrow> tracker \<Rightarrow> tracker" where
  "explainChange_settle a outcome s =
     (let s1 = (case outcome of
                  Inr explanation \<Rightarrow> set_status a explained (set_explanation a explanation s)
                | Inl err \<Rightarrow> set_status a error s)
      in notifyJournalListeners (notifyChangeListeners a s1))"

text \<open>
  Between the two lies the \<open>try\<close> block up to its \<open>await\<close>: it throws when the workspace
  has no folder (\<open>workspaceFolders\<close> is false), and calls the generator otherwise.
\<close>

definition explainChange_try :: "bool \<Rightarrow> nat \<Rightarrow> tracker \<Rightarrow> tracker" where
  "explainChange_try workspaceFolders a s =
     (if \<not> workspaceFolders then s
      else s\<lparr>outputs := outputs s @ [LLMRequested (explainRequest (heap s ! a))]\<rparr>)"

text \<open>
  The whole call, run to its end with nothing else in between. The result is how the
  promise settles: \<open>Inl\<close> would be a rejection.
\<close>

definition explainChange ::
  "bool \<Rightarrow> (LLMRequest \<Rightarrow> string + string) \<Rightarrow> string \<Rightarrow> tracker \<Rightarrow> (string + unit) \<times> tracker" where
  "explainChange workspaceFolders generateExplanation changeId s =
     (case explainChange_begin changeId s of
        (None, s1) \<Rightarrow> (Inr (), s1)
      | (Some a, s1) \<Rightarrow>
          let outcome = (if \<not> workspaceFolders then Inl ''No workspace''
                         else generateExplanation (explainRequest (heap s1 ! a)))
          in (Inr (), explainChange_settle a outcome (explainChange_try workspaceFolders a s1)))"

text \<open>\<open>handleFileSave\<close>, each \<open>await\<close> run to its end in turn.\<close>

definition pendingFor :: "TextDocument \<Rightarrow> tracker \<Rightarrow> string list" where
  "pendingFor document s =
     map c_id (filter (\<lambda>c. c_status c = pending \<and> c_filePath c = d_relativePath document)
       (List.map_filter (deref s) (map snd (changes s))))"

fun explain_loop ::
  "bool \<Rightarrow> (LLMRequest \<Rightarrow> string + string) \<Rightarrow> string list \<Rightarrow> tracker \<Rightarrow> (string + unit) \<times> tracker" where
  "explain_loop ws gen [] s = (Inr (), s)"
| "explain_loop ws gen (changeId # rest) s =
     (case explainChange ws gen changeId s of
        (Inl err, s1) \<Rightarrow> (Inl err, s1)
      | (Inr u, s1) \<Rightarrow> explain_loop ws gen rest s1)"

definition handleFileSave ::
  "bool \<Rightarrow> (LLMRequest \<Rightarrow> string + string) \<Rightarrow> TextDocument \<Rightarrow> tracker \<Rightarrow> (string + unit) \<times> tracker" where
  "handleFileSave ws gen document s = explain_loop ws gen (pendingFor document s) s"

subsection \<open>Events of the editor, and runs\<close>

text \<open>
  The editor hands an event to every live subscription of its feed: an edit to
  \<open>handleDocumentChange\<close>, a save to \<open>handleFileSave\<close>.
\<close>

definition deliverEdit :: "TextDocument \<Rightarrow> ContentChange list \<Rightarrow> tracker \<Rightarrow> tracker" where
  "deliverEdit document contentChanges s =
     fold (\<lambda>d. handleDocumentChange document contentChanges) (live EditFeed s) s"

definition deliverSave ::
  "bool \<Rightarrow> (LLMRequest \<Rightarrow> string + string) \<Rightarrow> TextDocument \<Rightarrow> tracker \<Rightarrow> tracker" where
  "deliverSave ws gen document s =
     fold (\<lambda>d t. snd (handleFileSave ws gen document t)) (live SaveFeed s) s"

text \<open>
  The steps of the tracker between two suspensions. A call of \<open>explainChange\<close> is an
  \<open>ExplainBegin\<close> (with whether the workspace has a folder) and, when the guard did not
  return, an \<open>ExplainSettle\<close> of the change it holds with the outcome of the \<open>try\<close>
  block: at once and with the error when the block threw for want of a folder, after any
  other steps when the call waited for the generator. \<open>handleFileSave\<close> and the panel's
  handlers make such calls one after the other.
\<close>

datatype op =
    StartTracking string
  | StopTracking
  | Clear
  | Advance nat
  | EditEvent TextDocument "ContentChange list"
  | TimerFire nat string
  | ExplainBegin bool string
  | ExplainSettle nat "string + string"

fun step :: "op \<Rightarrow> tracker \<Rightarrow> tracker" where
  "step (StartTracking newId) s = startTracking newId s"
| "step StopTracking s = snd (stopTracking s)"
| "step Clear s = clear s"
| "step (Advance d) s = advance_clock d s"
| "step (EditEvent document contentChanges) s = deliverEdit document contentChanges s"
| "step (TimerFire h newId) s = timerFire h newId s"
| "step (ExplainBegin ws changeId) s =
     (case explainChange_begin changeId s of
        (None, s1) \<Rightarrow> s1
      | (Some a, s1) \<Rightarrow> (explainChange_try ws a s1)\<lparr>inflight := inflight s1 @ [a]\<rparr>)"
| "step (ExplainSettle a outcome) s =
     (if a \<in> set (inflight s)
      then explainChange_settle a outcome (s\<lparr>inflight := remove1 a (inflight s)\<rparr>)
      else s)"

definition run :: "op list \<Rightarrow> tracker \<Rightarrow> tracker" where
  "run ops s = fold step ops s"

text \<open>The moves of the status that the specification allows.\<close>

definition status_move :: "status \<Rightarrow> status \<Rightarrow> bool" where
  "status_move x y =
     ((x = pending \<and> y = explaining) \<or> (x = explaining \<and> (y = explained \<or> y = error)) \<or>
      (x = error \<and> y = explaining))"

definition status_of :: "tracker \<Rightarrow> nat \<Rightarrow> status" where
  "status_of s a = c_status (heap s ! a)"


section \<open>The tour player: the panel's host side and the webview\<close>

subsection \<open>Data\<close>

record StepExplanations =
  x_tldr :: "string option"
  x_general :: "string option"
  x_detailed :: "string option"
  x_extreme_detail :: "string option"

definition no_explanations :: StepExplanations where
  "no_explanations = \<lparr>x_tldr = None, x_general = None, x_detailed = None, x_extreme_detail = None\<rparr>"

fun level_get :: "StepExplanations \<Rightarrow> DetailLevel \<Rightarrow> string option" where
  "level_get x tldr = x_tldr x"
| "level_get x general = x_general x"
| "level_get x detailed = x_detailed x"
| "level_get x extreme_detail = x_extreme_detail x"

fun level_set :: "StepExplanations \<Rightarrow> DetailLevel \<Rightarrow> string \<Rightarrow> StepExplanations" where
  "level_set x tldr e = x\<lparr>x_tldr := Some e\<rparr>"
| "level_set x general e = x\<lparr>x_general := Some e\<rparr>"
| "level_set x detailed e = x\<lparr>x_detailed := Some e\<rparr>"
| "level_set x extreme_detail e = x\<lparr>x_extreme_detail := Some e\<rparr>"

record StepContent =
  summary :: string
  explanation :: string
  explanations :: "StepExplanations option"
  translation :: "string option"

record VoyaStep =
  stepIndex :: int
  filePath :: string
  range' :: lineRange
  content :: StepContent
  codeSnippet :: "string option"

record VoyaTour =
  t_id :: string
  t_title :: string
  t_createdAt :: string
  t_repository :: "string option"
  t_branch :: "string option"
  steps :: "VoyaStep list"

datatype ExtensionToWebviewMessage =
    tourLoaded VoyaTour
  | tourList "VoyaTour list"
  | stepChanged int
  | playbackStateChanged bool
  | deepenStarted int
  | deepenComplete int DetailLevel string
  | errorMessage string

text \<open>
  \<open>array[i]\<close> is \<open>undefined\<close> outside the array; a string is truthy when it is there and
  not empty.
\<close>

definition array_get :: "'a list \<Rightarrow> int \<Rightarrow> 'a option" where
  "array_get xs i = (if 0 \<le> i \<and> i < int (length xs) then Some (xs ! nat i) else None)"

fun truthy :: "string option \<Rightarrow> bool" where
  "truthy None = False"
| "truthy (Some e) = (e \<noteq> [])"

definition cached_level :: "VoyaStep \<Rightarrow> DetailLevel \<Rightarrow> string option" where
  \<comment> \<open>\<open>step.content.explanations?.[level]\<close>\<close>
  "cached_level step' level =
     (case explanations (content step') of None \<Rightarrow> None | Some x \<Rightarrow> level_get x level)"

subsection \<open>\<open>VoyaWebviewProvider\<close>\<close>

text \<open>
  The fields of the provider that the player's handlers use, with the log of the
  messages it posted to the webview, of its generator calls and of the tours it saved.
  What the handlers take from outside is their first argument: whether the workspace has
  a folder, the text of a line range of a file (\<open>None\<close> when opening the file throws),
  the generator, and whether \<open>saveTour\<close> succeeds.
\<close>

record provider =
  panel :: bool
  currentTour :: "VoyaTour option"
  currentStepIndex :: int
  posted :: "ExtensionToWebviewMessage list"
  generated :: "LLMRequest list"
  saved :: "VoyaTour list"

record outside =
  workspaceFolders :: bool
  readRange :: "string \<Rightarrow> lineRange \<Rightarrow> string option"
  generateExplanation :: "LLMRequest \<Rightarrow> string + string"
  saveTour :: "VoyaTour \<Rightarrow> string + unit"

definition sendMessage :: "ExtensionToWebviewMessage \<Rightarrow> provider \<Rightarrow> provider" where
  "sendMessage message p = (if panel p then p\<lparr>posted := posted p @ [message]\<rparr> else p)"

definition highlightCurrentStep :: "provider \<Rightarrow> provider" where
  \<comment> \<open>opens the file and decorates the editor; no field of the provider changes\<close>
  "highlightCurrentStep p = p"

definition loadTour :: "VoyaTour \<Rightarrow> provider \<Rightarrow> provider" where
  "loadTour tour p =
     highlightCurrentStep
       (sendMessage (tourLoaded tour) (p\<lparr>currentTour := Some tour, currentStepIndex := 0\<rparr>))"

definition goToStep :: "int \<Rightarrow> provider \<Rightarrow> provider" where
  "goToStep i p =
     (case currentTour p of
        None \<Rightarrow> p
      | Some tour \<Rightarrow>
          let maxIndex = int (length (steps tour)) - 1;
              p1 = p\<lparr>currentStepIndex := max 0 (min i maxIndex)\<rparr>
          in highlightCurrentStep (sendMessage (stepChanged (currentStepIndex p1)) p1))"

definition getCodeSnippet :: "outside \<Rightarrow> VoyaStep \<Rightarrow> string" where
  "getCodeSnippet env step' =
     (if truthy (codeSnippet step') then the (codeSnippet step')
      else if \<not> workspaceFolders env then []
      else (case readRange env (filePath step') (range' step') of
              Some t \<Rightarrow> t | None \<Rightarrow> []))"

definition deepenRequest :: "outside \<Rightarrow> VoyaStep \<Rightarrow> DetailLevel \<Rightarrow> LLMRequest" where
  "deepenRequest env step' targetLevel =
     \<lparr>rq_code = getCodeSnippet env step', rq_filePath = filePath step',
      rq_startLine = startLine (range' step'), rq_endLine = endLine (range' step'),
      rq_detailLevel = targetLevel, rq_additionalContext = None\<rparr>"

definition failedMessage :: ExtensionToWebviewMessage where
  "failedMessage = errorMessage ''Failed to generate explanation. Please try again.''"

text \<open>
  \<open>handleDeepenRequest\<close>, each \<open>await\<close> run to its end in turn. \<open>deepen_generate\<close> is the
  method from the \<open>deepenStarted\<close> message on.
\<close>

definition deepen_generate ::
  "outside \<Rightarrow> int \<Rightarrow> DetailLevel \<Rightarrow> VoyaTour \<Rightarrow> VoyaStep \<Rightarrow> provider \<Rightarrow> provider" where
  "deepen_generate env i targetLevel tour step' p =
     (let p1 = sendMessage (deepenStarted i) p;
          request = deepenRequest env step' targetLevel;
          p2 = p1\<lparr>generated := generated p1 @ [request]\<rparr>
      in case generateExplanation env request of
           Inl err \<Rightarrow> sendMessage failedMessage p2
         | Inr e \<Rightarrow>
             let x = (case explanations (content step') of
                        None \<Rightarrow> no_explanations | Some x \<Rightarrow> x);
                 step2 = step'\<lparr>content := (content step')\<lparr>explanations :=
                           Some (level_set x targetLevel e)\<rparr>\<rparr>;
                 tour2 = tour\<lparr>steps := (steps tour)[nat i := step2]\<rparr>;
                 p3 = p2\<lparr>currentTour := Some tour2\<rparr>
             in (case saveTour env tour2 of
                   Inl err \<Rightarrow> sendMessage failedMessage p3
                 | Inr u \<Rightarrow>
                     sendMessage (deepenComplete i targetLevel e)
                       (p3\<lparr>saved := saved p3 @ [tour2]\<rparr>)))"

definition handleDeepenRequest :: "outside \<Rightarrow> int \<Rightarrow> DetailLevel \<Rightarrow> provider \<Rightarrow> provider" where
  "handleDeepenRequest env i targetLevel p =
     (case currentTour p of
        None \<Rightarrow> p
      | Some tour \<Rightarrow>
          (case array_get (steps tour) i of
             None \<Rightarrow> p
           | Some step' \<Rightarrow>
               if truthy (cached_level step' targetLevel)
               then sendMessage (deepenComplete i targetLevel (the (cached_level step' targetLevel))) p
               else deepen_generate env i targetLevel tour step' p))"

subsection \<open>The webview (\<open>App\<close>)\<close>

record Preferences =
  language :: string
  detailLevel :: DetailLevel

record PlayerState =
  activeTourId :: "string option"
  ps_currentStepIndex :: int
  isPlaying :: bool
  playbackSpeed :: real
  isLoadingDeepen :: bool
  preferences :: Preferences

record App =
  tours :: "VoyaTour list"
  playerState :: PlayerState
  activeTour :: "VoyaTour option"
  deepenedExplanations :: "int \<Rightarrow> StepExplanations option"

definition initialApp :: App where
  "initialApp =
     \<lparr>tours = [],
      playerState = \<lparr>activeTourId = None, ps_currentStepIndex = 0, isPlaying = False,
        playbackSpeed = 1, isLoadingDeepen = False,
        preferences = \<lparr>language = ''en'', detailLevel = general\<rparr>\<rparr>,
      activeTour = None, deepenedExplanations = Map.empty\<rparr>"

fun onMessage :: "ExtensionToWebviewMessage \<Rightarrow> App \<Rightarrow> App" where
  "onMessage (tourList ts) app = app\<lparr>tours := ts\<rparr>"
| "onMessage (tourLoaded tour) app =
     app\<lparr>activeTour := Some tour, deepenedExplanations := Map.empty,
         playerState := (playerState app)\<lparr>activeTourId := Some (t_id tour),
           ps_currentStepIndex := 0, isPlaying := False, isLoadingDeepen := False\<rparr>\<rparr>"
| "onMessage (stepChanged i) app =
     app\<lparr>playerState := (playerState app)\<lparr>ps_currentStepIndex := i\<rparr>\<rparr>"
| "onMessage (playbackStateChanged b) app =
     app\<lparr>playerState := (playerState app)\<lparr>isPlaying := b\<rparr>\<rparr>"
| "onMessage (deepenStarted i) app =
     app\<lparr>playerState := (playerState app)\<lparr>isLoadingDeepen := True\<rparr>\<rparr>"
| "onMessage (deepenComplete i level e) app =
     app\<lparr>playerState := (playerState app)\<lparr>isLoadingDeepen := False\<rparr>,
         deepenedExplanations := (deepenedExplanations app)
           (i \<mapsto> level_set (case deepenedExplanations app i of
                               None \<Rightarrow> no_explanations | Some x \<Rightarrow> x) level e)\<rparr>"
| "onMessage (errorMessage m) app =
     app\<lparr>playerState := (playerState app)\<lparr>isLoadingDeepen := False\<rparr>\<rparr>"

definition getCurrentExplanation :: "App \<Rightarrow> string" where
  "getCurrentExplanation app =
     (case activeTour app of
        None \<Rightarrow> []
      | Some tour \<Rightarrow>
          (case array_get (steps tour) (ps_currentStepIndex (playerState app)) of
             None \<Rightarrow> []
           | Some step' \<Rightarrow>
               let level = detailLevel (preferences (playerState app));
                   cached = (case deepenedExplanations app (ps_currentStepIndex (playerState app)) of
                               None \<Rightarrow> None | Some x \<Rightarrow> level_get x level)
               in if truthy cached then the cached
                  else if truthy (cached_level step' level) then the (cached_level step' level)
                  else explanation (content step')))"

text \<open>
  A \<open>requestDeepen\<close> message of the webview and what comes of it: the provider handles
  it, and the webview handles the messages the provider posted in reply, in their order.
\<close>

definition requestDeepen ::
  "outside \<Rightarrow> int \<Rightarrow> DetailLevel \<Rightarrow> provider \<times> App \<Rightarrow> provider \<times> App" where
  "requestDeepen env i targetLevel pa =
     (let p = fst pa;
          p' = handleDeepenRequest env i targetLevel p;
          replies = drop (length (posted p)) (posted p')
      in (p', fold onMessage replies (snd pa)))"

section \<open>Reachable states and example inputs\<close>

text \<open>
  The suspended calls of \<open>explainChange\<close> are pairwise different and each holds a change
  whose status is \<open>explaining\<close>: this holds in every state the tracker reaches.
\<close>

definition inflight_ok :: "tracker \<Rightarrow> bool" where
  "inflight_ok s =
     (distinct (inflight s) \<and>
      list_all (\<lambda>a. a < length (heap s) \<and> status_of s a = explaining) (inflight s))"

definition w_doc :: TextDocument where
  "w_doc = \<lparr>d_scheme = ''file'', d_fsPath = ''/w/src/a.ts'', d_relativePath = ''src/a.ts''\<rparr>"

definition w_edit :: "op list" where
  "w_edit = [StartTracking ''j1'',
             EditEvent w_doc [\<lparr>ch_line = 4, ch_text = ''const x = 1;''\<rparr>], Advance 2000]"

definition w_pending :: tracker where
  \<comment> \<open>one change, \<open>c1\<close>, detected and pending\<close>
  "w_pending = run (w_edit @ [TimerFire 0 ''c1'']) (initial 0)"

definition w_explaining :: tracker where
  "w_explaining = run (w_edit @ [TimerFire 0 ''c1'', ExplainBegin True ''c1'']) (initial 0)"

definition w_explained :: tracker where
  "w_explained = run (w_edit @ [TimerFire 0 ''c1'', ExplainBegin True ''c1'',
     ExplainSettle 0 (Inr ''It declares x.'')]) (initial 0)"

definition w_gen :: "LLMRequest \<Rightarrow> string + string" where
  "w_gen request = Inr ''It declares x.''"


text \<open>
  A timer that was cleared or has fired, and two edits of one document, the second
  \<open>d\<close> milliseconds after the first, with nothing in between.
\<close>

definition cancelled :: "nat \<Rightarrow> tracker \<Rightarrow> bool" where
  "cancelled h s = (h < length (timers s) \<and> timers s ! h = None)"





text \<open>
  The cache entry of the webview for the current step at the current level, a step with
  one more level cached, and the resolution order of \<open>currentExplanation\<close> as the
  specification words it: the first of cache entry, embedded entry and default that is
  present.
\<close>

definition deepened_level :: "App \<Rightarrow> string option" where
  "deepened_level app =
     (case deepenedExplanations app (ps_currentStepIndex (playerState app)) of
        None \<Rightarrow> None
      | Some x \<Rightarrow> level_get x (detailLevel (preferences (playerState app))))"


definition spec_currentExplanation :: "App \<Rightarrow> string" where
  "spec_currentExplanation app =
     (case activeTour app of
        None \<Rightarrow> []
      | Some tour \<Rightarrow>
          (case array_get (steps tour) (ps_currentStepIndex (playerState app)) of
             None \<Rightarrow> []
           | Some step' \<Rightarrow>
               (case deepened_level app of
                  Some a \<Rightarrow> a
                | None \<Rightarrow>
                    (case cached_level step' (detailLevel (preferences (playerState app))) of
                       Some b \<Rightarrow> b
                     | None \<Rightarrow> explanation (content step')))))"

text \<open>Example inputs for the tour player.\<close>

definition w_step :: "int \<Rightarrow> VoyaStep" where
  "w_step k =
     \<lparr>stepIndex = k, filePath = ''src/a.ts'', range' = \<lparr>startLine = 1, endLine = 3\<rparr>,
      content = \<lparr>summary = ''Setup'', explanation = ''C'', explanations = None,
        translation = None\<rparr>,
      codeSnippet = Some ''const x = 1;''\<rparr>"

definition w_tour :: VoyaTour where
  "w_tour = \<lparr>t_id = ''t1'', t_title = ''Tour'', t_createdAt = ''2024-01-01'',
     t_repository = None, t_branch = None, steps = map w_step [0, 1, 2, 3, 4]\<rparr>"

definition w_provider :: provider where
  "w_provider = \<lparr>panel = True, currentTour = Some w_tour, currentStepIndex = 0, posted = [],
     generated = [], saved = []\<rparr>"

definition w_outside :: outside where
  "w_outside = \<lparr>workspaceFolders = True, readRange = (\<lambda>f r. None),
     generateExplanation = (\<lambda>r. Inr ''Short.''), saveTour = (\<lambda>t. Inr ())\<rparr>"

definition w_outside_fails :: outside where
  "w_outside_fails = \<lparr>workspaceFolders = True, readRange = (\<lambda>f r. None),
     generateExplanation = (\<lambda>r. Inl ''network''), saveTour = (\<lambda>t. Inr ())\<rparr>"


definition w_embedded :: VoyaStep where
  "w_embedded = (w_step 0)\<lparr>content := (content (w_step 0))\<lparr>explanations :=
     Some (no_explanations\<lparr>x_detailed := Some ''B''\<rparr>)\<rparr>\<rparr>"

definition w_app :: "string option \<Rightarrow> VoyaStep \<Rightarrow> App" where
  \<comment> \<open>the webview at step 0 of a one-step tour, level \<open>detailed\<close>, with the given cache entry\<close>
  "w_app cached step' =
     initialApp\<lparr>activeTour := Some (w_tour\<lparr>steps := [step']\<rparr>),
       playerState := (playerState initialApp)\<lparr>activeTourId := Some ''t1'',
         preferences := \<lparr>language = ''en'', detailLevel = detailed\<rparr>\<rparr>,
       deepenedExplanations := [0 \<mapsto> no_explanations\<lparr>x_detailed := cached\<rparr>]\<rparr>"


definition w_loading :: App where
  "w_loading = onMessage (deepenStarted 0) initialApp"

text \<open>The tracker after the change \<open>c1\<close> was detected and tracking was stopped.\<close>

definition w_stopped :: tracker where
  "w_stopped = snd (stopTracking w_pending)"

section \<open>Properties of the change classifier\<close>

subsection \<open>The two counting regular expressions\<close>


lemma lt_is_ws: "isLineTerminator c \<Longrightarrow> isWhiteSpace c"
  by (auto simp: isLineTerminator_def isWhiteSpace_def)
















lemma split_on_nonempty: "split_on sep s \<noteq> []"
  by (induction s) (auto split: list.splits)

lemma length_split_on: "length (split_on sep s) = Suc (length (filter sep s))"
  by (induction s) (auto split: list.splits simp: split_on_nonempty)






lemma length_split_nl: "length (split_nl s) = Suc (count_list s CHR 0x0A)"
  by (induction s) (auto simp: split_nl_def split_on_nonempty split: list.splits)

lemma classify_cases: "classify s = agent \<or> classify s = manual"
  by (simp add: classify_def)



section \<open>Properties of the change tracker\<close>

subsection \<open>What each operation does to the store of changes\<close>

lemma heap_dispose [simp]: "heap (dispose d s) = heap s" "inflight (dispose d s) = inflight s"
  by (simp_all add: dispose_def)

lemma heap_fold_dispose [simp]:
  "heap (fold dispose ds s) = heap s" "inflight (fold dispose ds s) = inflight s"
  by (induction ds arbitrary: s) simp_all

lemma heap_clearTimeout [simp]:
  "heap (clearTimeout h s) = heap s" "inflight (clearTimeout h s) = inflight s"
  by (simp_all add: clearTimeout_def)

lemma heap_fold_clearTimeout [simp]:
  "heap (fold clearTimeout hs s) = heap s" "inflight (fold clearTimeout hs s) = inflight s"
  by (induction hs arbitrary: s) simp_all

lemma heap_startTracking [simp]:
  "heap (startTracking i s) = heap s" "inflight (startTracking i s) = inflight s"
  by (simp_all add: startTracking_def subscribe_def Let_def)

lemma heap_stopTracking [simp]:
  "heap (snd (stopTracking s)) = heap s" "inflight (snd (stopTracking s)) = inflight s"
  by (simp_all add: stopTracking_def Let_def split: option.splits)

lemma heap_clear [simp]: "heap (clear s) = heap s" "inflight (clear s) = inflight s"
  by (simp_all add: clear_def Let_def split: option.splits)

lemma heap_advance_clock [simp]:
  "heap (advance_clock d s) = heap s" "inflight (advance_clock d s) = inflight s"
  by (simp_all add: advance_clock_def)

lemma heap_debounce [simp]:
  "heap (debounce doc ch s) = heap s" "inflight (debounce doc ch s) = inflight s"
  by (simp_all add: debounce_def setTimeout_def Let_def split: option.splits)

lemma heap_contentChanges_loop [simp]:
  "heap (contentChanges_loop doc chs s) = heap s"
  "inflight (contentChanges_loop doc chs s) = inflight s"
  by (induction chs arbitrary: s) simp_all

lemma heap_handleDocumentChange [simp]:
  "heap (handleDocumentChange doc chs s) = heap s"
  "inflight (handleDocumentChange doc chs s) = inflight s"
  by (simp_all add: handleDocumentChange_def)

lemma heap_fold_handleDocumentChange [simp]:
  "heap (fold (\<lambda>d. handleDocumentChange doc chs) ds s) = heap s"
  "inflight (fold (\<lambda>d. handleDocumentChange doc chs) ds s) = inflight s"
  by (induction ds arbitrary: s) simp_all

lemma heap_deliverEdit [simp]:
  "heap (deliverEdit doc chs s) = heap s" "inflight (deliverEdit doc chs s) = inflight s"
  by (simp_all add: deliverEdit_def)

lemma heap_notify [simp]:
  "heap (notifyChangeListeners a s) = heap s" "inflight (notifyChangeListeners a s) = inflight s"
  "heap (notifyJournalListeners s) = heap s" "inflight (notifyJournalListeners s) = inflight s"
  by (simp_all add: notifyChangeListeners_def notifyJournalListeners_def split: option.splits)

lemma heap_processChange:
  "\<exists>c. heap (processChange doc ch i s) = heap s @ [c] \<and> c_status c = pending \<and>
       c_code c = ch_text ch \<and> c_source c = Some (classify (ch_text ch))"
  by (simp add: processChange_def Let_def split: option.splits)

lemma inflight_processChange [simp]: "inflight (processChange doc ch i s) = inflight s"
  by (simp add: processChange_def Let_def split: option.splits)

lemma heap_timerFire:
  "heap (timerFire h i s) = heap s \<or>
   (\<exists>c. heap (timerFire h i s) = heap s @ [c] \<and> c_status c = pending)"
proof -
  have "\<exists>c. heap (processChange doc ch i (s\<lparr>timers := ts\<rparr>)) = heap s @ [c] \<and> c_status c = pending"
    for doc ch ts
    using heap_processChange [of doc ch i "s\<lparr>timers := ts\<rparr>"] by auto
  then show ?thesis
    by (auto simp: timerFire_def Let_def split: option.splits)
qed

lemma inflight_timerFire [simp]: "inflight (timerFire h i s) = inflight s"
  by (simp add: timerFire_def Let_def split: option.splits)


lemma status_of_same_heap: "heap s' = heap s \<Longrightarrow> status_of s' a = status_of s a"
  by (simp add: status_of_def)

lemma inflight_ok_same: "heap s' = heap s \<Longrightarrow> inflight s' = inflight s \<Longrightarrow> inflight_ok s' = inflight_ok s"
  by (simp add: inflight_ok_def status_of_def)

lemma inflight_ok_initial: "inflight_ok (initial t0)"
  by (simp add: inflight_ok_def initial_def)

lemma heap_set_status [simp]:
  "heap (set_status a st s) = (heap s)[a := (heap s ! a)\<lparr>c_status := st\<rparr>]"
  "inflight (set_status a st s) = inflight s"
  "heap (set_explanation a e s) = (heap s)[a := (heap s ! a)\<lparr>c_explanation := Some e\<rparr>]"
  "inflight (set_explanation a e s) = inflight s"
  by (simp_all add: set_status_def set_explanation_def)

lemma explainChange_begin_None:
  "explainChange_begin i s = (None, s') \<Longrightarrow> s' = s"
  by (auto simp: explainChange_begin_def split: option.splits if_splits)

lemma explainChange_begin_Some:
  assumes "explainChange_begin i s = (Some a, s')"
  shows "a < length (heap s) \<and> map_of (changes s) i = Some a \<and>
         status_of s a \<noteq> explaining \<and> status_of s a \<noteq> explained \<and>
         s' = notifyChangeListeners a (set_status a explaining s)"
  using assms
  by (auto simp: explainChange_begin_def deref_def status_of_def split: option.splits if_splits)

lemma heap_explainChange_try [simp]:
  "heap (explainChange_try ws a s) = heap s" "inflight (explainChange_try ws a s) = inflight s"
  by (simp_all add: explainChange_try_def)

lemma heap_explainChange_settle:
  "heap (explainChange_settle a out s) =
     (case out of
        Inr e \<Rightarrow> (heap s)[a := (heap s ! a)\<lparr>c_explanation := Some e, c_status := explained\<rparr>]
      | Inl err \<Rightarrow> (heap s)[a := (heap s ! a)\<lparr>c_status := error\<rparr>])"
  by (cases "a < length (heap s)")
     (auto simp: explainChange_settle_def Let_def list_update_beyond not_less split: sum.splits)

lemma inflight_explainChange_settle [simp]:
  "inflight (explainChange_settle a out s) = inflight s"
  by (simp add: explainChange_settle_def Let_def split: sum.splits)

lemma length_heap_step: "length (heap s) \<le> length (heap (step x s))"
proof (cases x)
  case (TimerFire h i)
  then show ?thesis using heap_timerFire [of h i s] by auto
next
  case (ExplainBegin ws i)
  then show ?thesis
    by (cases "explainChange_begin i s")
       (auto dest: explainChange_begin_None explainChange_begin_Some split: option.splits)
next
  case (ExplainSettle a out)
  then show ?thesis by (simp add: heap_explainChange_settle split: sum.splits)
qed simp_all

lemma status_step:
  assumes "inflight_ok s" "a < length (heap s)"
  shows "status_of (step x s) a = status_of s a \<or> status_move (status_of s a) (status_of (step x s) a)"
proof (cases x)
  case (TimerFire h i)
  then show ?thesis using heap_timerFire [of h i s] assms(2)
    by (auto simp: status_of_def nth_append)
next
  case (ExplainBegin ws i)
  show ?thesis
  proof (cases "explainChange_begin i s")
    case (Pair r s')
    show ?thesis
    proof (cases r)
      case None
      with Pair ExplainBegin show ?thesis by (auto dest: explainChange_begin_None)
    next
      case (Some b)
      with Pair have b: "b < length (heap s)" "status_of s b \<noteq> explaining"
        "status_of s b \<noteq> explained" "s' = notifyChangeListeners b (set_status b explaining s)"
        using explainChange_begin_Some [of i s b s'] by auto
      have "status_of s b = pending \<or> status_of s b = error"
        using b(2,3) by (cases "status_of s b") auto
      with b Pair Some ExplainBegin assms(2) show ?thesis
        by (cases "a = b") (auto simp: status_of_def status_move_def)
    qed
  qed
next
  case (ExplainSettle b out)
  show ?thesis
  proof (cases "b \<in> set (inflight s)")
    case False
    with ExplainSettle show ?thesis by simp
  next
    case True
    with assms(1) have "status_of s b = explaining"
      by (auto simp: inflight_ok_def list_all_iff)
    with True ExplainSettle assms(2) show ?thesis
      by (cases "a = b"; cases out)
         (auto simp: status_of_def status_move_def heap_explainChange_settle)
  qed
qed (simp_all add: status_of_def)


lemma inflight_ok_step:
  assumes "inflight_ok s"
  shows "inflight_ok (step x s)"
proof (cases x)
  case (TimerFire h i)
  from heap_timerFire [of h i s] assms TimerFire show ?thesis
    by (auto simp: inflight_ok_def status_of_def list_all_iff nth_append)
next
  case (ExplainBegin ws i)
  show ?thesis
  proof (cases "explainChange_begin i s")
    case (Pair r s')
    show ?thesis
    proof (cases r)
      case None
      with Pair ExplainBegin assms show ?thesis by (auto dest: explainChange_begin_None)
    next
      case (Some b)
      with Pair have b: "b < length (heap s)" "status_of s b \<noteq> explaining"
        "s' = notifyChangeListeners b (set_status b explaining s)"
        using explainChange_begin_Some [of i s b s'] by auto
      from assms b(2) have nb: "b \<notin> set (inflight s)"
        by (auto simp: inflight_ok_def list_all_iff)
      have st: "step x s = (explainChange_try ws b s')\<lparr>inflight := inflight s' @ [b]\<rparr>"
        using ExplainBegin Pair Some by simp
      show ?thesis
        unfolding st using assms b nb
        by (auto simp: inflight_ok_def list_all_iff status_of_def nth_list_update)
    qed
  qed
next
  case (ExplainSettle b out)
  show ?thesis
  proof (cases "b \<in> set (inflight s)")
    case False
    with ExplainSettle assms show ?thesis by simp
  next
    case True
    have st: "step x s = explainChange_settle b out (s\<lparr>inflight := remove1 b (inflight s)\<rparr>)"
      using ExplainSettle True by simp
    have d: "distinct (inflight s)" using assms by (simp add: inflight_ok_def)
    then have nb: "b \<notin> set (remove1 b (inflight s))" by simp
    have sub: "set (remove1 b (inflight s)) \<subseteq> set (inflight s)" by (rule set_remove1_subset)
    show ?thesis
      unfolding st using assms d nb sub
      by (cases out)
         (auto simp: inflight_ok_def list_all_iff status_of_def heap_explainChange_settle
            nth_list_update)
  qed
qed (use assms in \<open>simp_all add: inflight_ok_def status_of_def\<close>)

lemma inflight_ok_run: "inflight_ok s \<Longrightarrow> inflight_ok (run xs s)"
  unfolding run_def by (induction xs arbitrary: s) (simp_all add: inflight_ok_step)

lemma length_heap_run: "length (heap s) \<le> length (heap (run xs s))"
  unfolding run_def
proof (induction xs arbitrary: s)
  case Nil
  show ?case by simp
next
  case (Cons x xs)
  have "length (heap s) \<le> length (heap (step x s))" by (rule length_heap_step)
  also have "\<dots> \<le> length (heap (fold step xs (step x s)))" by (rule Cons)
  finally show ?case by simp
qed

lemma explained_stays:
  "inflight_ok s \<Longrightarrow> a < length (heap s) \<Longrightarrow> status_of s a = explained \<Longrightarrow>
   status_of (run xs s) a = explained"
  unfolding run_def
proof (induction xs arbitrary: s)
  case Nil
  then show ?case by simp
next
  case (Cons x xs)
  from status_step [OF Cons.prems(1,2), of x] Cons.prems(3)
  have e: "status_of (step x s) a = explained" by (auto simp: status_move_def)
  have l: "a < length (heap (step x s))"
    using Cons.prems(2) length_heap_step [of s x] by simp
  from Cons.IH [OF inflight_ok_step [OF Cons.prems(1)] l e] show ?case by simp
qed

lemma new_change_pending:
  assumes "length (heap s) \<le> a" "a < length (heap (step x s))"
  shows "status_of (step x s) a = pending"
proof (cases x)
  case (TimerFire h i)
  from heap_timerFire [of h i s] assms TimerFire show ?thesis
    by (auto simp: status_of_def nth_append)
next
  case (ExplainBegin ws i)
  with assms show ?thesis
    by (cases "explainChange_begin i s")
       (auto dest: explainChange_begin_None explainChange_begin_Some split: option.splits)
next
  case (ExplainSettle b out)
  with assms show ?thesis by (auto simp: heap_explainChange_settle split: sum.splits if_splits)
qed (use assms in simp_all)

text \<open>
  C2: in every state that the tracker reaches from its initial state by any sequence of
  steps, and for every change record \<open>a\<close> of that state, a further step leaves the
  status of \<open>a\<close> as it is or moves it along \<open>pending \<rightarrow> explaining\<close>,
  \<open>explaining \<rightarrow> explained\<close>, \<open>explaining \<rightarrow> error\<close> or \<open>error \<rightarrow> explaining\<close> (the retry);
  once the status is \<open>explained\<close> no sequence of steps changes it; and a record that a
  step creates starts as \<open>pending\<close>.
\<close>

theorem status_progress:
  assumes "s = run xs (initial t0)"
  shows "(a < length (heap s) \<longrightarrow>
            status_of (step x s) a = status_of s a \<or>
            status_move (status_of s a) (status_of (step x s) a)) \<and>
         (a < length (heap s) \<and> status_of s a = explained \<longrightarrow>
            status_of (run ys s) a = explained) \<and>
         (length (heap s) \<le> a \<and> a < length (heap (step x s)) \<longrightarrow>
            status_of (step x s) a = pending)"
proof -
  have ok: "inflight_ok s"
    unfolding assms by (rule inflight_ok_run [OF inflight_ok_initial])
  show ?thesis
    using status_step [OF ok, of a x] explained_stays [OF ok, of a ys]
      new_change_pending [of s a x]
    by blast
qed

lemma w_explaining_facts:
  "0 < length (heap w_explaining)" "status_of w_explaining 0 = explaining"
  "status_of (step (ExplainSettle 0 (Inl ''network'')) w_explaining) 0 = error"
  by code_simp+

lemma w_explained_facts:
  "0 < length (heap w_explained)" "status_of w_explained 0 = explained"
  by code_simp+

lemma w_edit_facts:
  "length (heap (run w_edit (initial 0))) = 0"
  "0 < length (heap (step (TimerFire 0 ''c1'') (run w_edit (initial 0))))"
  by code_simp+

theorem status_progress_witness:
  "status_move explaining (status_of (step (ExplainSettle 0 (Inl ''network'')) w_explaining) 0) \<and>
   status_of (run [ExplainBegin True ''c1'', Clear, ExplainSettle 0 (Inl ''late'')] w_explained) 0
     = explained \<and>
   status_of (step (TimerFire 0 ''c1'') (run w_edit (initial 0))) 0 = pending"
proof -
  have 1: "status_move explaining (status_of (step (ExplainSettle 0 (Inl ''network'')) w_explaining) 0)"
    using status_progress [OF w_explaining_def, where a = 0 and x = "ExplainSettle 0 (Inl ''network'')"]
      w_explaining_facts
    by simp
  have 2: "status_of (run [ExplainBegin True ''c1'', Clear, ExplainSettle 0 (Inl ''late'')]
             w_explained) 0 = explained"
    using status_progress [OF w_explained_def, where a = 0 and
        ys = "[ExplainBegin True ''c1'', Clear, ExplainSettle 0 (Inl ''late'')]"]
      w_explained_facts
    by simp
  have 3: "status_of (step (TimerFire 0 ''c1'') (run w_edit (initial 0))) 0 = pending"
    using status_progress [OF refl, where a = 0 and xs = w_edit and ?t0.0 = 0 and
        x = "TimerFire 0 ''c1''"] w_edit_facts
    by simp
  from 1 2 3 show ?thesis by blast
qed

subsection \<open>\<open>explainChange\<close>\<close>

lemma explainChange_resolves: "fst (explainChange ws gen i s) = Inr ()"
  by (simp add: explainChange_def Let_def split: prod.splits option.splits)




lemma explainRequest_status [simp]:
  "explainRequest (c\<lparr>c_status := st\<rparr>) = explainRequest c"
  by (simp add: explainRequest_def)








subsection \<open>Saves are runs of steps\<close>

text \<open>
  A call of \<open>explainChange\<close> run to its end is a begin step and a settle step, so what a
  save event does (\<open>handleFileSave\<close> for every live save subscription) is a run of
  steps: the states that saves lead to are among those that C2 speaks about.
\<close>

lemma run_append: "run (xs @ ys) s = run ys (run xs s)"
  by (simp add: run_def)

lemma explainChange_as_steps:
  assumes "inflight_ok s"
  shows "\<exists>xs. snd (explainChange ws gen i s) = run xs s"
proof (cases "explainChange_begin i s")
  case (Pair r s1)
  show ?thesis
  proof (cases r)
    case None
    with Pair have "snd (explainChange ws gen i s) = run [] s"
      by (auto simp: explainChange_def run_def dest: explainChange_begin_None)
    then show ?thesis by blast
  next
    case (Some a)
    let ?out = "if \<not> ws then Inl ''No workspace'' else gen (explainRequest (heap s1 ! a))"
    from Pair Some have b: "status_of s a \<noteq> explaining"
      "s1 = notifyChangeListeners a (set_status a explaining s)"
      using explainChange_begin_Some [of i s a s1] by auto
    from assms b(1) have na: "a \<notin> set (inflight s)"
      by (auto simp: inflight_ok_def list_all_iff)
    have i1: "inflight s1 = inflight s" by (simp add: b(2))
    have "run [ExplainBegin ws i, ExplainSettle a ?out] s =
            explainChange_settle a ?out
              ((explainChange_try ws a s1)\<lparr>inflight := inflight s\<rparr>)"
      using Pair Some na by (simp add: run_def i1 remove1_append)
    also have "(explainChange_try ws a s1)\<lparr>inflight := inflight s\<rparr> = explainChange_try ws a s1"
      using i1 by (simp add: explainChange_try_def)
    finally have "snd (explainChange ws gen i s) = run [ExplainBegin ws i, ExplainSettle a ?out] s"
      using Pair Some by (simp add: explainChange_def Let_def)
    then show ?thesis by blast
  qed
qed

lemma explain_loop_as_steps:
  "inflight_ok s \<Longrightarrow> \<exists>xs. snd (explain_loop ws gen ids s) = run xs s"
proof (induction ids arbitrary: s)
  case Nil
  have "snd (explain_loop ws gen [] s) = run [] s" by (simp add: run_def)
  then show ?case by blast
next
  case (Cons i ids)
  obtain xs where xs: "snd (explainChange ws gen i s) = run xs s"
    using explainChange_as_steps [OF Cons.prems] by blast
  have ok: "inflight_ok (snd (explainChange ws gen i s))"
    unfolding xs by (rule inflight_ok_run [OF Cons.prems])
  obtain ys where ys: "snd (explain_loop ws gen ids (snd (explainChange ws gen i s))) =
      run ys (snd (explainChange ws gen i s))"
    using Cons.IH [OF ok] by blast
  have f: "fst (explainChange ws gen i s) = Inr ()" by (rule explainChange_resolves)
  have "snd (explain_loop ws gen (i # ids) s) =
          snd (explain_loop ws gen ids (snd (explainChange ws gen i s)))"
    using f by (cases "explainChange ws gen i s") (auto split: sum.splits)
  also have "\<dots> = run (xs @ ys) s" using ys by (simp add: xs run_append)
  finally show ?case by blast
qed

lemma deliverSave_as_steps:
  assumes "inflight_ok s"
  shows "\<exists>xs. deliverSave ws gen doc s = run xs s"
proof -
  have "\<exists>xs. fold (\<lambda>d t. snd (handleFileSave ws gen doc t)) ds s = run xs s"
    if "inflight_ok s" for ds s
    using that
  proof (induction ds arbitrary: s)
    case Nil
    have "fold (\<lambda>d t. snd (handleFileSave ws gen doc t)) [] s = run [] s" by (simp add: run_def)
    then show ?case by blast
  next
    case (Cons d ds)
    obtain xs where xs: "snd (handleFileSave ws gen doc s) = run xs s"
      unfolding handleFileSave_def using explain_loop_as_steps [OF Cons.prems] by blast
    have "inflight_ok (run xs s)" by (rule inflight_ok_run [OF Cons.prems])
    from Cons.IH [OF this] obtain ys where
      "fold (\<lambda>d t. snd (handleFileSave ws gen doc t)) ds (run xs s) = run ys (run xs s)" by blast
    then have "fold (\<lambda>d t. snd (handleFileSave ws gen doc t)) (d # ds) s = run (xs @ ys) s"
      by (simp add: xs run_append)
    then show ?case by blast
  qed
  from this [OF assms] show ?thesis unfolding deliverSave_def by blast
qed

subsection \<open>The debounce\<close>

lemma cancelled_update: "cancelled h s \<Longrightarrow> timers s' = (timers s)[k := None] \<Longrightarrow> cancelled h s'"
  by (cases "k = h") (auto simp: cancelled_def)

lemma cancelled_append: "cancelled h s \<Longrightarrow> timers s' = timers s @ ts \<Longrightarrow> cancelled h s'"
  by (auto simp: cancelled_def nth_append)


lemma cancelled_clearTimeout: "cancelled h s \<Longrightarrow> cancelled h (clearTimeout k s)"
  by (rule cancelled_update [where k = k]) (simp_all add: clearTimeout_def)

lemma cancelled_fold_clearTimeout: "cancelled h s \<Longrightarrow> cancelled h (fold clearTimeout ks s)"
  by (induction ks arbitrary: s) (simp_all add: cancelled_clearTimeout)

lemma timers_dispose [simp]: "timers (dispose d s) = timers s"
  by (simp add: dispose_def)

lemma timers_fold_dispose [simp]: "timers (fold dispose ds s) = timers s"
  by (induction ds arbitrary: s) simp_all






lemma timers_processChange [simp]: "timers (processChange doc ch i s) = timers s"
  by (simp add: processChange_def Let_def notifyChangeListeners_def notifyJournalListeners_def
      split: option.splits)










lemma fields_advance_clock [simp]:
  "timers (advance_clock d s) = timers s" "pendingChanges (advance_clock d s) = pendingChanges s"
  "clock (advance_clock d s) = clock s + d"
  by (simp_all add: advance_clock_def)






subsection \<open>Stopping\<close>

text \<open>
  What \<open>stopTracking\<close> does when the tracker is tracking: it returns the journal with
  \<open>sessionEnd\<close> stamped, is no longer tracking, has no current journal and no pending
  key; every timer that \<open>pendingChanges\<close> held is cleared; the edit subscription it kept
  is no longer live. The save subscriptions are as live as before.
\<close>

lemma fields_clearTimeout [simp]:
  "subscriptions (clearTimeout h s) = subscriptions s" "clock (clearTimeout h s) = clock s"
  "currentJournal (clearTimeout h s) = currentJournal s" "isTracking (clearTimeout h s) = isTracking s"
  "length (timers (clearTimeout h s)) = length (timers s)"
  by (simp_all add: clearTimeout_def)

lemma fields_fold_clearTimeout [simp]:
  "subscriptions (fold clearTimeout hs s) = subscriptions s"
  "clock (fold clearTimeout hs s) = clock s"
  "currentJournal (fold clearTimeout hs s) = currentJournal s"
  "isTracking (fold clearTimeout hs s) = isTracking s"
  "length (timers (fold clearTimeout hs s)) = length (timers s)"
  by (induction hs arbitrary: s) simp_all

lemma fold_clearTimeout_cancels:
  "h \<in> set hs \<Longrightarrow> h < length (timers s) \<Longrightarrow> cancelled h (fold clearTimeout hs s)"
proof (induction hs arbitrary: s)
  case Nil
  then show ?case by simp
next
  case (Cons k hs)
  show ?case
  proof (cases "h = k")
    case True
    with Cons.prems have "cancelled h (clearTimeout k s)"
      by (simp add: cancelled_def clearTimeout_def)
    then show ?thesis by (simp add: cancelled_fold_clearTimeout)
  next
    case False
    with Cons.prems have "h \<in> set hs" "h < length (timers (clearTimeout k s))" by simp_all
    from Cons.IH [OF this] show ?thesis by simp
  qed
qed

lemma fields_dispose [simp]:
  "clock (dispose d s) = clock s" "currentJournal (dispose d s) = currentJournal s"
  "pendingChanges (dispose d s) = pendingChanges s" "fileWatchers (dispose d s) = fileWatchers s"
  "length (subscriptions (dispose d s)) = length (subscriptions s)"
  by (simp_all add: dispose_def)

lemma fields_dispose2 [simp]:
  "isTracking (dispose d s) = isTracking s"
  "documentChangeListener (dispose d s) = documentChangeListener s"
  by (simp_all add: dispose_def)

lemma fields_fold_dispose [simp]:
  "clock (fold dispose ds s) = clock s" "currentJournal (fold dispose ds s) = currentJournal s"
  "pendingChanges (fold dispose ds s) = pendingChanges s"
  "isTracking (fold dispose ds s) = isTracking s"
  "length (subscriptions (fold dispose ds s)) = length (subscriptions s)"
  by (induction ds arbitrary: s) simp_all

lemma live_dispose_other:
  assumes "d < length (subscriptions s)" "fst (subscriptions s ! d) \<noteq> f"
  shows "live f (dispose d s) = live f s"
proof -
  have "((subscriptions s)[d := (fst (subscriptions s ! d), False)] ! k = (f, True)) =
        (subscriptions s ! k = (f, True))" if "k < length (subscriptions s)" for k
    using assms that by (cases "k = d") (auto simp: prod_eq_iff)
  then show ?thesis
    by (auto simp: live_def dispose_def intro!: filter_cong)
qed

lemma live_dispose_self: "d \<notin> set (live f (dispose d s))"
  by (auto simp: live_def dispose_def)

lemma stopTracking_effects:
  assumes "isTracking s" "currentJournal s = Some j"
  shows "fst (stopTracking s) = Some (j\<lparr>j_sessionEnd := Some (clock s)\<rparr>)"
    and "\<not> isTracking (snd (stopTracking s))"
    and "currentJournal (snd (stopTracking s)) = None"
    and "pendingChanges (snd (stopTracking s)) = []"
  using assms by (simp_all add: stopTracking_def Let_def split: option.splits)

lemma stopTracking_cancels:
  assumes "isTracking s" "(k, h) \<in> set (pendingChanges s)" "h < length (timers s)"
  shows "cancelled h (snd (stopTracking s))"
proof -
  have hs: "h \<in> set (map snd (pendingChanges s))" using assms(2) by force
  have c: "cancelled h (fold clearTimeout (map snd (pendingChanges s)) t)"
    if "timers t = timers s" for t
    by (rule fold_clearTimeout_cancels [OF hs]) (simp add: that assms(3))
  have g: "cancelled h (t\<lparr>pendingChanges := [], currentJournal := jj\<rparr>)"
    "cancelled h (t\<lparr>pendingChanges := []\<rparr>)" if "cancelled h t" for t jj
    using that by (simp_all add: cancelled_def)
  show ?thesis
    using assms(1)
    by (auto simp: stopTracking_def Let_def split: option.splits intro!: g c)
qed

lemma stopTracking_edit_feed:
  assumes "isTracking s" "documentChangeListener s = Some d"
  shows "d \<notin> set (live EditFeed (snd (stopTracking s)))"
proof -
  have "live f (t\<lparr>pendingChanges := ps\<rparr>) = live f t"
    "live f (t\<lparr>currentJournal := jj\<rparr>) = live f t"
    "live f (t\<lparr>fileWatchers := fw\<rparr>) = live f t"
    "live f (t\<lparr>isTracking := b\<rparr>) = live f t"
    "live f (fold clearTimeout hs t) = live f t" for f t ps jj fw b hs
    by (simp_all add: live_def)
  note l = this
  have fd: "d \<notin> set (live EditFeed (fold dispose ds t))"
    if "d \<notin> set (live EditFeed t)" for ds t
    using that
  proof (induction ds arbitrary: t)
    case Nil
    then show ?case by simp
  next
    case (Cons k ds)
    have "d \<notin> set (live EditFeed (dispose k t))"
      using Cons.prems by (cases "k = d") (auto simp: live_def dispose_def)
    from Cons.IH [OF this] show ?case by simp
  qed
  have "d \<notin> set (live EditFeed (dispose d (s\<lparr>isTracking := False\<rparr>)))"
    by (rule live_dispose_self)
  from fd [OF this] show ?thesis
    using assms by (simp add: stopTracking_def Let_def l split: option.splits)
qed

lemma stopTracking_save_feed:
  assumes "isTracking s" "documentChangeListener s = Some d" "fileWatchers s = []"
    "d < length (subscriptions s)" "fst (subscriptions s ! d) = EditFeed"
  shows "live SaveFeed (snd (stopTracking s)) = live SaveFeed s"
proof -
  have l: "live f (t\<lparr>pendingChanges := ps\<rparr>) = live f t"
    "live f (t\<lparr>currentJournal := jj\<rparr>) = live f t"
    "live f (t\<lparr>fileWatchers := fw\<rparr>) = live f t"
    "live f (t\<lparr>isTracking := b\<rparr>) = live f t"
    "live f (fold clearTimeout hs t) = live f t" for f t ps jj fw b hs
    by (simp_all add: live_def)
  have "live SaveFeed (dispose d (s\<lparr>isTracking := False\<rparr>)) = live SaveFeed (s\<lparr>isTracking := False\<rparr>)"
    by (rule live_dispose_other) (use assms in simp_all)
  then show ?thesis
    using assms by (simp add: stopTracking_def Let_def l split: option.splits)
qed

text \<open>
  C5 fails on the source. \<open>startTracking\<close> keeps the edit subscription in
  \<open>documentChangeListener\<close> but hands the save subscription to the extension context
  only; \<open>stopTracking\<close> disposes \<open>documentChangeListener\<close> and the (always empty)
  \<open>fileWatchers\<close>. So after start, one detected change and stop, the tracker is no
  longer tracking and no edit subscription is live, but the save subscription is, and a
  save of the file runs \<open>explainChange\<close> on the pending change: the generator is called
  and the change ends as \<open>explained\<close>.
\<close>

theorem save_after_stop_explains:
  "\<not> isTracking w_stopped \<and> live EditFeed w_stopped = [] \<and> live SaveFeed w_stopped = [1] \<and>
   status_of w_stopped 0 = pending \<and>
   status_of (deliverSave True w_gen w_doc w_stopped) 0 = explained \<and>
   LLMRequested (explainRequest (heap w_stopped ! 0))
     \<in> set (outputs (deliverSave True w_gen w_doc w_stopped))"
  by code_simp

section \<open>Properties of the tour player\<close>

subsection \<open>Navigation\<close>

lemma goToStep_index:
  "currentTour p = Some tour \<Longrightarrow>
   currentStepIndex (goToStep i p) = max 0 (min i (int (length (steps tour)) - 1))"
  by (simp add: goToStep_def Let_def highlightCurrentStep_def sendMessage_def)

text \<open>
  C9: with a tour of \<open>n \<ge> 1\<close> steps loaded, \<open>goToStep\<close> sets \<open>currentStepIndex\<close> to its
  argument clamped into \<open>[0, n - 1]\<close>, for every integer, and posts the new index; it has
  no failing branch. For a 5-step tour \<open>goToStep(-3)\<close> gives 0 and \<open>goToStep(99)\<close>
  gives 4 (the witness).
\<close>

theorem goToStep_clamps:
  assumes "currentTour p = Some tour" "1 \<le> length (steps tour)"
  shows "currentStepIndex (goToStep i p) = max 0 (min i (int (length (steps tour)) - 1)) \<and>
         0 \<le> currentStepIndex (goToStep i p) \<and>
         currentStepIndex (goToStep i p) < int (length (steps tour)) \<and>
         (0 \<le> i \<and> i < int (length (steps tour)) \<longrightarrow> currentStepIndex (goToStep i p) = i) \<and>
         (i < 0 \<longrightarrow> currentStepIndex (goToStep i p) = 0) \<and>
         (int (length (steps tour)) \<le> i \<longrightarrow>
            currentStepIndex (goToStep i p) = int (length (steps tour)) - 1) \<and>
         (panel p \<longrightarrow>
            posted (goToStep i p) = posted p @ [stepChanged (currentStepIndex (goToStep i p))])"
  using assms
  by (auto simp: goToStep_def Let_def highlightCurrentStep_def sendMessage_def)


lemma w_provider_facts:
  "currentTour w_provider = Some w_tour" "length (steps w_tour) = 5"
  by (simp_all add: w_provider_def w_tour_def)

theorem goToStep_clamps_witness:
  "currentStepIndex (goToStep (- 3) w_provider) = 0 \<and>
   currentStepIndex (goToStep 99 w_provider) = 4 \<and>
   currentStepIndex (goToStep 2 w_provider) = 2"
  using goToStep_clamps [where p = w_provider and tour = w_tour and i = "- 3"]
    goToStep_clamps [where p = w_provider and tour = w_tour and i = 99]
    goToStep_clamps [where p = w_provider and tour = w_tour and i = 2]
    w_provider_facts
  by simp

subsection \<open>Deepen requests\<close>

text \<open>
  C10: a deepen request when no tour is loaded, or for an index outside the steps of the
  loaded tour, changes nothing: the provider, with its log of posted messages, generator
  calls and saved tours, is as before, and so is the webview (no loading flag). The
  index is not clamped, as \<open>goToStep\<close> would.
\<close>

theorem requestDeepen_out_of_range:
  assumes "currentTour p = None \<or>
           currentTour p = Some tour \<and> (i < 0 \<or> int (length (steps tour)) \<le> i)"
  shows "handleDeepenRequest env i L p = p \<and> requestDeepen env i L (p, app) = (p, app)"
  using assms
  by (auto simp: handleDeepenRequest_def requestDeepen_def array_get_def Let_def)

theorem requestDeepen_out_of_range_witness:
  "handleDeepenRequest w_outside 99 detailed w_provider = w_provider \<and>
   requestDeepen w_outside (- 1) detailed (w_provider, initialApp) = (w_provider, initialApp) \<and>
   handleDeepenRequest w_outside 0 detailed (w_provider\<lparr>currentTour := None\<rparr>) =
     w_provider\<lparr>currentTour := None\<rparr>"
  using requestDeepen_out_of_range [where p = w_provider and tour = w_tour and i = 99 and
      env = w_outside and L = detailed]
    requestDeepen_out_of_range [where p = w_provider and tour = w_tour and i = "- 1" and
      env = w_outside and L = detailed and app = initialApp]
    requestDeepen_out_of_range [where p = "w_provider\<lparr>currentTour := None\<rparr>" and i = 0 and
      env = w_outside and L = detailed]
    w_provider_facts
  by simp


lemma handleDeepenRequest_miss:
  assumes "currentTour p = Some tour" "array_get (steps tour) i = Some st"
    "\<not> truthy (cached_level st L)"
  shows "handleDeepenRequest env i L p = deepen_generate env i L tour st p"
  using assms by (simp add: handleDeepenRequest_def)

lemma fields_sendMessage [simp]:
  "currentTour (sendMessage m p) = currentTour p" "generated (sendMessage m p) = generated p"
  "saved (sendMessage m p) = saved p" "panel (sendMessage m p) = panel p"
  "currentStepIndex (sendMessage m p) = currentStepIndex p"
  "posted (sendMessage m p) = (if panel p then posted p @ [m] else posted p)"
  by (simp_all add: sendMessage_def)

lemma deepen_generate_throws:
  assumes "generateExplanation env (deepenRequest env st L) = Inl err"
  shows "deepen_generate env i L tour st p =
     sendMessage failedMessage
       ((sendMessage (deepenStarted i) p)\<lparr>generated := generated p @ [deepenRequest env st L]\<rparr>)"
  using assms by (simp add: deepen_generate_def Let_def)

lemma level_get_set: "level_get (level_set x L e) L' = (if L' = L then Some e else level_get x L')"
  by (cases L; cases L') simp_all






lemma w_deepen_facts:
  "array_get (steps w_tour) 0 = Some (w_step 0)"
  "\<not> truthy (cached_level (w_step 0) tldr)"
  "generateExplanation w_outside (deepenRequest w_outside (w_step 0) tldr) = Inr ''Short.''"
  "generateExplanation w_outside_fails (deepenRequest w_outside_fails (w_step 0) tldr) = Inl ''network''"
  "panel w_provider" "posted w_provider = []" "generated w_provider = []"
  by (simp_all add: w_tour_def array_get_def w_step_def cached_level_def w_outside_def
      w_outside_fails_def w_provider_def)



text \<open>
  C8: when the generator call of a deepen request fails, the provider has posted
  \<open>deepenStarted\<close> and the generic error message and logged the generator call, and is
  otherwise unchanged: the tour and every cached level are as before. The webview ends
  with \<open>isLoadingDeepen\<close> false and its own cache unchanged, and the same request made
  again goes to the generator again.
\<close>

theorem requestDeepen_failure:
  assumes "currentTour p = Some tour" "array_get (steps tour) i = Some st"
    "\<not> truthy (cached_level st L)"
    "generateExplanation env (deepenRequest env st L) = Inl err" "panel p"
  shows "handleDeepenRequest env i L p =
           p\<lparr>posted := posted p @ [deepenStarted i, failedMessage],
             generated := generated p @ [deepenRequest env st L]\<rparr> \<and>
         currentTour (handleDeepenRequest env i L p) = Some tour \<and>
         \<not> isLoadingDeepen (playerState (snd (requestDeepen env i L (p, app)))) \<and>
         deepenedExplanations (snd (requestDeepen env i L (p, app))) = deepenedExplanations app \<and>
         handleDeepenRequest env2 i L (handleDeepenRequest env i L p) =
           deepen_generate env2 i L tour st (handleDeepenRequest env i L p)"
proof -
  let ?p1 = "p\<lparr>posted := posted p @ [deepenStarted i, failedMessage],
             generated := generated p @ [deepenRequest env st L]\<rparr>"
  have e: "handleDeepenRequest env i L p = ?p1"
    unfolding handleDeepenRequest_miss [OF assms(1-3)] deepen_generate_throws [OF assms(4)]
    using assms(5) by (simp add: sendMessage_def)
  have t: "currentTour ?p1 = Some tour" using assms(1) by simp
  have r: "snd (requestDeepen env i L (p, app)) =
             onMessage failedMessage (onMessage (deepenStarted i) app)"
    by (simp add: requestDeepen_def Let_def e)
  have again: "handleDeepenRequest env2 i L ?p1 = deepen_generate env2 i L tour st ?p1"
    by (rule handleDeepenRequest_miss [OF t assms(2,3)])
  show ?thesis
    unfolding e r using t again by (simp add: failedMessage_def)
qed

theorem requestDeepen_failure_witness:
  "posted (handleDeepenRequest w_outside_fails 0 tldr w_provider) =
     [deepenStarted 0, failedMessage] \<and>
   currentTour (handleDeepenRequest w_outside_fails 0 tldr w_provider) = Some w_tour \<and>
   isLoadingDeepen (playerState (snd (requestDeepen w_outside_fails 0 tldr (w_provider, w_loading))))
     = False"
  using requestDeepen_failure [OF w_provider_facts(1) w_deepen_facts(1,2,4,5), where app = w_loading]
    w_deepen_facts w_provider_facts
  by simp

subsection \<open>The explanation shown\<close>

lemma getCurrentExplanation_step:
  assumes "activeTour app = Some tour"
    "array_get (steps tour) (ps_currentStepIndex (playerState app)) = Some st"
  shows "getCurrentExplanation app =
     (if truthy (deepened_level app) then the (deepened_level app)
      else if truthy (cached_level st (detailLevel (preferences (playerState app))))
        then the (cached_level st (detailLevel (preferences (playerState app))))
      else explanation (content st))"
  using assms by (simp add: getCurrentExplanation_def deepened_level_def Let_def)

lemma w_app_facts:
  "activeTour (w_app c st) = Some (w_tour\<lparr>steps := [st]\<rparr>)"
  "array_get (steps (w_tour\<lparr>steps := [st]\<rparr>)) (ps_currentStepIndex (playerState (w_app c st))) = Some st"
  "detailLevel (preferences (playerState (w_app c st))) = detailed"
  "deepened_level (w_app c st) = c"
  "cached_level w_embedded detailed = Some ''B''"
  "cached_level (w_step 0) detailed = None"
  "explanation (content w_embedded) = ''C''" "explanation (content (w_step 0)) = ''C''"
  by (simp_all add: w_app_def initialApp_def array_get_def deepened_level_def w_embedded_def
      w_step_def cached_level_def no_explanations_def)

text \<open>
  C7, as stated, fails when the cache entry is present and empty: the first of cache
  entry, embedded entry and default that is present would be the empty string, but the
  source tests truthiness and goes on to the embedded entry.
\<close>

theorem currentExplanation_empty_counterexample:
  "deepened_level (w_app (Some []) w_embedded) = Some [] \<and>
   spec_currentExplanation (w_app (Some []) w_embedded) = [] \<and>
   getCurrentExplanation (w_app (Some []) w_embedded) = ''B''"
proof -
  have "spec_currentExplanation (w_app (Some []) w_embedded) = []"
    unfolding spec_currentExplanation_def w_app_facts(1) option.case w_app_facts(2)
      w_app_facts(4) by simp
  moreover have "getCurrentExplanation (w_app (Some []) w_embedded) = ''B''"
    by (simp add: getCurrentExplanation_step [OF w_app_facts(1,2)] w_app_facts)
  ultimately show ?thesis by (simp add: w_app_facts)
qed

text \<open>
  C7, amended: \<open>currentExplanation\<close> is the cache entry of the webview for the current
  step and level when that is present and not empty, else the step's embedded entry for
  the level when that is present and not empty, else the step's default explanation.
  With cache entry \<open>A\<close>, embedded entry \<open>B\<close> and default \<open>C\<close> it is \<open>A\<close>; without the
  cache entry \<open>B\<close>; without both \<open>C\<close> (the witness).
\<close>

theorem getCurrentExplanation_order:
  assumes "activeTour app = Some tour"
    "array_get (steps tour) (ps_currentStepIndex (playerState app)) = Some st"
    "level = detailLevel (preferences (playerState app))"
  shows "(deepened_level app = Some a \<and> a \<noteq> [] \<longrightarrow> getCurrentExplanation app = a) \<and>
         (\<not> truthy (deepened_level app) \<and> cached_level st level = Some b \<and> b \<noteq> [] \<longrightarrow>
            getCurrentExplanation app = b) \<and>
         (\<not> truthy (deepened_level app) \<and> \<not> truthy (cached_level st level) \<longrightarrow>
            getCurrentExplanation app = explanation (content st))"
  using getCurrentExplanation_step [OF assms(1,2)] assms(3) by auto

theorem getCurrentExplanation_order_witness:
  "getCurrentExplanation (w_app (Some ''A'') w_embedded) = ''A'' \<and>
   getCurrentExplanation (w_app None w_embedded) = ''B'' \<and>
   getCurrentExplanation (w_app None (w_step 0)) = ''C''"
  using getCurrentExplanation_order [OF w_app_facts(1,2) refl, of "Some ''A''" w_embedded "''A''"]
    getCurrentExplanation_order [OF w_app_facts(1,2) refl, of None w_embedded _ "''B''"]
    getCurrentExplanation_order [OF w_app_facts(1,2) refl, of None "w_step 0"]
  by (simp add: w_app_facts)

end
